theory Spec2Isabelle
  imports Main "HOL-Library.Word"
begin

section \<open>Configuration constants (main\_e.h)\<close>

text \<open>
  The three constants of main\_e.h. The slot length is computed in C++ \<open>int\<close>
  arithmetic (both operands are promoted) and then stored in a 16-bit constant.
\<close>

definition main_c_CycleLengthMS_u8 :: "8 word" where
  "main_c_CycleLengthMS_u8 = 10"

definition main_c_CycleTaskCount_u8 :: "8 word" where
  "main_c_CycleTaskCount_u8 = 10"

definition main_c_CycleTaskLengthUs_u16 :: "16 word" where
  "main_c_CycleTaskLengthUs_u16 =
     word_of_int (1000 * uint main_c_CycleLengthMS_u8 div uint main_c_CycleTaskCount_u8)"

text \<open>
  main.cpp names the task count \<open>MAIN_CYCLE_TASK_COUNT\<close> and the slot length
  \<open>main_g_CycleTaskLengthUs_u16\<close>. Neither name is declared in the sources at hand;
  main\_e.h declares the measurement array with \<open>main_c_CycleTaskCount_u8\<close> entries and
  the slot length as \<open>main_c_CycleTaskLengthUs_u16\<close>. Every function below therefore
  takes the count \<open>cnt\<close> (8 bits) and the slot length \<open>len\<close> (16 bits) as parameters;
  the shipped values are the constants above.
\<close>

section \<open>Data (main\_e.h, main.cpp)\<close>

record main_g_RuntimeMeasTyp_t =
  currentCycle_u32 :: "32 word"
  minCycle_u32 :: "32 word"
  maxCycle_u32 :: "32 word"

text \<open>The globals of main.cpp.\<close>

record main_globals =
  main_g_CurrMicros_u64 :: "64 word"
  main_g_LastMicros_u64 :: "64 word"
  main_g_CurrTaskIndex_u16 :: "16 word"
  main_g_RuntimeMeas_s :: "main_g_RuntimeMeasTyp_t list"

text \<open>
  An access to \<open>main_g_RuntimeMeas_s\<close> outside the array is undefined behaviour in
  C++; the model stops with an error there.
\<close>

datatype error = OutOfBounds

definition zero_meas :: main_g_RuntimeMeasTyp_t where
  "zero_meas = \<lparr>currentCycle_u32 = 0, minCycle_u32 = 0, maxCycle_u32 = 0\<rparr>"

text \<open>
  The state at program start: the scalars carry their initialisers, the array has
  \<open>cnt\<close> entries and, having static storage, is zero-initialised.
\<close>

definition static_init :: "8 word \<Rightarrow> main_globals" where
  "static_init cnt =
     \<lparr>main_g_CurrMicros_u64 = 0,
      main_g_LastMicros_u64 = 0,
      main_g_CurrTaskIndex_u16 = 0,
      main_g_RuntimeMeas_s = replicate (unat cnt) zero_meas\<rparr>"

section \<open>Initialisation: main\_f\_Init\_v\<close>

text \<open>
  The loop \<open>for(i = 0; i < MAIN_CYCLE_TASK_COUNT; i++)\<close> with a 16-bit counter; the
  comparison is made on the promoted values. The three assignments of the body are
  kept in the source's order.
\<close>

function Init_loop ::
  "8 word \<Rightarrow> 16 word \<Rightarrow> main_g_RuntimeMeasTyp_t list \<Rightarrow> error + main_g_RuntimeMeasTyp_t list"
where
  "Init_loop cnt i a =
     (if unat i < unat cnt then
        (if unat i < length a then
           Init_loop cnt (i + 1)
             (a[unat i := (a ! unat i)\<lparr>currentCycle_u32 := 0, maxCycle_u32 := 0, minCycle_u32 := 0\<rparr>])
         else Inl OutOfBounds)
      else Inr a)"
  by pat_completeness auto

termination Init_loop
proof (relation "measure (\<lambda>(cnt, i, a). unat cnt - unat i)")
  show "wf (measure (\<lambda>(cnt :: 8 word, i :: 16 word, a :: main_g_RuntimeMeasTyp_t list).
              unat cnt - unat i))"
    by simp
next
  fix cnt :: "8 word" and i :: "16 word" and a :: "main_g_RuntimeMeasTyp_t list"
  assume lt: "unat i < unat cnt"
  have "unat cnt < 256"
    using unsigned_less [of cnt, where 'a = nat] by simp
  with lt have "unat i < 65535" by simp
  then have "unat (i + 1) = Suc (unat i)"
    by (simp add: unat_word_ariths)
  with lt show
    "((cnt, i + 1,
       a[unat i := (a ! unat i)\<lparr>currentCycle_u32 := 0, maxCycle_u32 := 0, minCycle_u32 := 0\<rparr>]),
      (cnt, i, a))
       \<in> measure (\<lambda>(cnt, i, a). unat cnt - unat i)"
    by simp
qed

declare Init_loop.simps [simp del]

text \<open>
  \<open>main_f_Init_v\<close>: the loop over the measurement array. The three driver
  initialisations that follow (\<open>btn_Init_v\<close>, \<open>pot_f_Init_v\<close>, \<open>srv_Init_v\<close>) belong to
  other modules and do not write the globals of main.cpp. The function reads no
  clock and assigns neither \<open>main_g_LastMicros_u64\<close> nor \<open>main_g_CurrTaskIndex_u16\<close>.
\<close>

definition main_f_Init_v :: "8 word \<Rightarrow> main_globals \<Rightarrow> error + main_globals" where
  "main_f_Init_v cnt g =
     (case Init_loop cnt 0 (main_g_RuntimeMeas_s g) of
        Inl e \<Rightarrow> Inl e
      | Inr a \<Rightarrow> Inr (g\<lparr>main_g_RuntimeMeas_s := a\<rparr>))"

text \<open>The Arduino entry point \<open>setup()\<close>: called once on boot, on the statically initialised globals.\<close>

definition arduino_setup :: "8 word \<Rightarrow> error + main_globals" where
  "arduino_setup cnt = main_f_Init_v cnt (static_init cnt)"

section \<open>Runtime measurement\<close>

text \<open>
  \<open>micros()\<close> is the external clock. Each call's reading is an input of the model, a
  64-bit value as \<open>main_g_CurrMicros_u64\<close> stores it. \<open>main_f_StartRTM_v\<close> returns it
  as \<open>uint32_t\<close>, which keeps the low 32 bits; \<open>main_f_StopRTM_v\<close> subtracts the start
  value and returns the difference as \<open>uint32_t\<close>.
\<close>

definition main_f_StartRTM_v :: "64 word \<Rightarrow> 32 word" where
  "main_f_StartRTM_v micros = ucast micros"

definition main_f_StopRTM_v :: "64 word \<Rightarrow> 32 word \<Rightarrow> 32 word" where
  "main_f_StopRTM_v micros rtmStart = ucast (micros - ucast rtmStart)"

text \<open>
  The body of \<open>main_f_HandleRTMStats_v\<close> on the entry it indexes: three \<open>if\<close>
  statements in sequence, each reading what the one before has written.
\<close>

definition HandleRTMStats_entry :: "main_g_RuntimeMeasTyp_t \<Rightarrow> main_g_RuntimeMeasTyp_t" where
  "HandleRTMStats_entry m =
     (let m1 = (if currentCycle_u32 m > maxCycle_u32 m
                then m\<lparr>maxCycle_u32 := currentCycle_u32 m\<rparr> else m);
          m2 = (if currentCycle_u32 m1 < minCycle_u32 m1
                then m1\<lparr>minCycle_u32 := currentCycle_u32 m1\<rparr> else m1)
      in (if minCycle_u32 m2 = 0
          then m2\<lparr>minCycle_u32 := currentCycle_u32 m2\<rparr> else m2))"

definition main_f_HandleRTMStats_v ::
  "16 word \<Rightarrow> main_g_RuntimeMeasTyp_t list \<Rightarrow> error + main_g_RuntimeMeasTyp_t list"
where
  "main_f_HandleRTMStats_v index a =
     (if unat index < length a
      then Inr (a[unat index := HandleRTMStats_entry (a ! unat index)])
      else Inl OutOfBounds)"

text \<open>
  One record operation, as \<open>main_f_Handle_v\<close> performs it for the slot it has just
  run: store the duration in \<open>currentCycle_u32\<close>, then call
  \<open>main_f_HandleRTMStats_v\<close>.
\<close>

definition record_duration ::
  "16 word \<Rightarrow> 32 word \<Rightarrow> main_g_RuntimeMeasTyp_t list \<Rightarrow> error + main_g_RuntimeMeasTyp_t list"
where
  "record_duration index d a =
     (if unat index < length a
      then main_f_HandleRTMStats_v index (a[unat index := (a ! unat index)\<lparr>currentCycle_u32 := d\<rparr>])
      else Inl OutOfBounds)"

fun record_durations ::
  "16 word \<Rightarrow> 32 word list \<Rightarrow> main_g_RuntimeMeasTyp_t list \<Rightarrow> error + main_g_RuntimeMeasTyp_t list"
where
  "record_durations index [] a = Inr a"
| "record_durations index (d # ds) a =
     (case record_duration index d a of
        Inl e \<Rightarrow> Inl e
      | Inr a' \<Rightarrow> record_durations index ds a')"

section \<open>The scheduler: main\_f\_Handle\_v\<close>

text \<open>The \<open>switch\<close> on the task index: which branch runs for which value.\<close>

datatype handler = btn_Handle_v | pot_f_Handle_v | srv_Handle_v

datatype branch = Call handler | To_be_populated | Default

definition main_switch :: "16 word \<Rightarrow> branch" where
  "main_switch index =
     (if index = 0 then Call btn_Handle_v
      else if index = 1 then Call pot_f_Handle_v
      else if index = 2 then Call srv_Handle_v
      else if index = 3 then To_be_populated
      else if index = 4 then To_be_populated
      else if index = 5 then To_be_populated
      else if index = 6 then To_be_populated
      else if index = 7 then To_be_populated
      else if index = 8 then To_be_populated
      else if index = 9 then To_be_populated
      else Default)"

text \<open>
  The readings of \<open>micros()\<close> that one call of \<open>main_f_Handle_v\<close> can make: on entry,
  in \<open>main_f_StartRTM_v\<close> and in \<open>main_f_StopRTM_v\<close>. The last two are read only when
  the slot is due.
\<close>

record micros_reads =
  at_Handle :: "64 word"
  at_StartRTM :: "64 word"
  at_StopRTM :: "64 word"

text \<open>
  What a call did, beside the new globals: \<open>None\<close> when the slot was not due,
  \<open>Some (index, branch)\<close> when the switch ran on \<open>index\<close> and took \<open>branch\<close>. The
  handlers themselves are other modules' code and leave the globals of main.cpp
  alone. The slot length is promoted and compared as an unsigned 64-bit value.
\<close>

definition main_f_Handle_v ::
  "8 word \<Rightarrow> 16 word \<Rightarrow> micros_reads \<Rightarrow> main_globals
     \<Rightarrow> error + ((16 word \<times> branch) option \<times> main_globals)"
where
  "main_f_Handle_v cnt len clk g =
     (let g1 = g\<lparr>main_g_CurrMicros_u64 := at_Handle clk\<rparr> in
      if main_g_CurrMicros_u64 g1 - main_g_LastMicros_u64 g1 \<ge> ucast len then
        (let g2 = g1\<lparr>main_g_LastMicros_u64 := main_g_CurrMicros_u64 g1\<rparr>;
             l_RtmMeas_u32 = main_f_StartRTM_v (at_StartRTM clk);
             index = main_g_CurrTaskIndex_u16 g2;
             taken = main_switch index;
             a = main_g_RuntimeMeas_s g2
         in if unat index < length a then
              (case main_f_HandleRTMStats_v index
                      (a[unat index := (a ! unat index)
                           \<lparr>currentCycle_u32 := main_f_StopRTM_v (at_StopRTM clk) l_RtmMeas_u32\<rparr>]) of
                 Inl e \<Rightarrow> Inl e
               | Inr a' \<Rightarrow>
                   (let next = index + 1;
                        next' = (if unat next \<ge> unat cnt then 0 else next)
                    in Inr (Some (index, taken),
                            g2\<lparr>main_g_RuntimeMeas_s := a', main_g_CurrTaskIndex_u16 := next'\<rparr>)))
            else Inl OutOfBounds)
      else Inr (None, g1))"

text \<open>\<open>loop()\<close> called again and again: one call of \<open>main_f_Handle_v\<close> per element.\<close>

fun arduino_loop ::
  "8 word \<Rightarrow> 16 word \<Rightarrow> micros_reads list \<Rightarrow> main_globals
     \<Rightarrow> error + ((16 word \<times> branch) option list \<times> main_globals)"
where
  "arduino_loop cnt len [] g = Inr ([], g)"
| "arduino_loop cnt len (clk # clks) g =
     (case main_f_Handle_v cnt len clk g of
        Inl e \<Rightarrow> Inl e
      | Inr (out, g') \<Rightarrow>
          (case arduino_loop cnt len clks g' of
             Inl e \<Rightarrow> Inl e
           | Inr (outs, g'') \<Rightarrow> Inr (out # outs, g'')))"

text \<open>The program: \<open>setup()\<close>, then \<open>loop()\<close> once per element of \<open>clks\<close>.\<close>

definition run ::
  "8 word \<Rightarrow> 16 word \<Rightarrow> micros_reads list
     \<Rightarrow> error + ((16 word \<times> branch) option list \<times> main_globals)"
where
  "run cnt len clks =
     (case arduino_setup cnt of Inl e \<Rightarrow> Inl e | Inr g \<Rightarrow> arduino_loop cnt len clks g)"

text \<open>The slot indices on which the switch ran, in order.\<close>

fun fired_slots :: "(16 word \<times> branch) option list \<Rightarrow> 16 word list" where
  "fired_slots [] = []"
| "fired_slots (None # outs) = fired_slots outs"
| "fired_slots (Some (index, taken) # outs) = index # fired_slots outs"

text \<open>
  Clock readings that grow without wrapping and lie at least \<open>len\<close> apart, each from
  the one before.
\<close>

fun spaced :: "16 word \<Rightarrow> 64 word list \<Rightarrow> bool" where
  "spaced len (t # t' # ts) = (unat t + unat len \<le> unat t' \<and> spaced len (t' # ts))"
| "spaced len ts = True"

text \<open>
  The states the data model admits: the task index is below the count, and the
  measurement array has one entry per slot.
\<close>

definition well_formed :: "8 word \<Rightarrow> main_globals \<Rightarrow> bool" where
  "well_formed cnt g =
     (unat (main_g_CurrTaskIndex_u16 g) < unat cnt \<and> length (main_g_RuntimeMeas_s g) = unat cnt)"

section \<open>Auxiliary facts\<close>

subsection \<open>Word arithmetic\<close>

lemma ucast_sub_down: "(ucast ((a::64 word) - ucast (b :: 32 word)) :: 32 word) = ucast a - b"
proof -
  have dvd: "(2::int) ^ 32 dvd 2 ^ 64"
    by (rule le_imp_power_dvd) simp
  have ub: "uint (ucast b :: 64 word) = uint b"
    using unsigned_less [of b, where 'a = int]
    by (simp add: unsigned_ucast_eq take_bit_int_eq_self)
  have "uint (ucast (a - ucast b) :: 32 word) = uint (a - ucast b) mod 2 ^ 32"
    by (simp add: unsigned_ucast_eq take_bit_eq_mod)
  also have "\<dots> = ((uint a - uint b) mod 2 ^ 64) mod 2 ^ 32"
    by (simp add: uint_word_ariths ub)
  also have "\<dots> = (uint a - uint b) mod 2 ^ 32"
    using dvd by (rule mod_mod_cancel)
  also have "\<dots> = (uint a mod 2 ^ 32 - uint b) mod 2 ^ 32"
    by (simp add: mod_diff_left_eq)
  also have "\<dots> = uint ((ucast a :: 32 word) - b)"
    by (simp add: uint_word_ariths unsigned_ucast_eq take_bit_eq_mod)
  finally show ?thesis
    by (simp add: word_uint_eq_iff)
qed

lemma unat_ucast_down: "unat (ucast (a :: 64 word) :: 32 word) = unat a mod 2 ^ 32"
  by (simp add: unsigned_ucast_eq take_bit_eq_mod)

lemma unat_succ_u16: "unat (i :: 16 word) < 65535 \<Longrightarrow> unat (i + 1) = Suc (unat i)"
  by (simp add: unat_word_ariths)

lemma unat_u8_less: "unat (c :: 8 word) < 256"
  using unsigned_less [of c, where 'a = nat] by simp

lemma unat_ucast_len: "unat (ucast (len :: 16 word) :: 64 word) = unat len"
  by (simp add: unsigned_ucast_eq take_bit_nat_eq_self_iff) (use unsigned_less [of len, where 'a = nat] in simp)

lemma due_iff: "((ucast (len :: 16 word) :: 64 word) \<le> a) = (unat len \<le> unat a)"
  by (simp add: word_le_nat_alt unat_ucast_len)

lemma zero_entry: "m\<lparr>currentCycle_u32 := 0, maxCycle_u32 := 0, minCycle_u32 := 0\<rparr> = zero_meas"
  by (simp add: zero_meas_def)

lemma StopRTM_StartRTM:
  "main_f_StopRTM_v t (main_f_StartRTM_v s) = ucast t - ucast s"
  by (simp add: main_f_StopRTM_v_def main_f_StartRTM_v_def ucast_sub_down)

lemma Handle_idle:
  assumes "\<not> ucast len \<le> at_Handle clk - main_g_LastMicros_u64 g"
  shows "main_f_Handle_v cnt len clk g = Inr (None, g\<lparr>main_g_CurrMicros_u64 := at_Handle clk\<rparr>)"
  using assms by (simp add: main_f_Handle_v_def)

lemma Handle_fire:
  assumes "ucast len \<le> at_Handle clk - main_g_LastMicros_u64 g"
    and "unat (main_g_CurrTaskIndex_u16 g) < length (main_g_RuntimeMeas_s g)"
  shows "main_f_Handle_v cnt len clk g =
           Inr (Some (main_g_CurrTaskIndex_u16 g, main_switch (main_g_CurrTaskIndex_u16 g)),
                g\<lparr>main_g_CurrMicros_u64 := at_Handle clk,
                  main_g_LastMicros_u64 := at_Handle clk,
                  main_g_RuntimeMeas_s :=
                    (main_g_RuntimeMeas_s g)
                      [unat (main_g_CurrTaskIndex_u16 g) :=
                         HandleRTMStats_entry
                           ((main_g_RuntimeMeas_s g ! unat (main_g_CurrTaskIndex_u16 g))
                              \<lparr>currentCycle_u32 := ucast (at_StopRTM clk) - ucast (at_StartRTM clk)\<rparr>)],
                  main_g_CurrTaskIndex_u16 :=
                    (if unat cnt \<le> unat (main_g_CurrTaskIndex_u16 g + 1) then 0
                     else main_g_CurrTaskIndex_u16 g + 1)\<rparr>)"
  using assms
  by (simp add: main_f_Handle_v_def main_f_HandleRTMStats_v_def Let_def StopRTM_StartRTM)

lemma Handle_fire_oob:
  assumes "ucast len \<le> at_Handle clk - main_g_LastMicros_u64 g"
    and "\<not> unat (main_g_CurrTaskIndex_u16 g) < length (main_g_RuntimeMeas_s g)"
  shows "main_f_Handle_v cnt len clk g = Inl OutOfBounds"
  using assms by (simp add: main_f_Handle_v_def Let_def)

lemma next_index:
  assumes "unat (i :: 16 word) < unat (cnt :: 8 word)"
  shows "unat (if unat cnt \<le> unat (i + 1) then 0 else i + 1) = Suc (unat i) mod unat cnt"
proof -
  have "unat i < 65535" using assms unat_u8_less [of cnt] by simp
  then have s: "unat (i + 1) = Suc (unat i)" by (rule unat_succ_u16)
  show ?thesis
  proof (cases "unat cnt \<le> Suc (unat i)")
    case True
    with assms have "Suc (unat i) = unat cnt" by simp
    with True s show ?thesis by simp
  next
    case False
    with s show ?thesis by simp
  qed
qed

subsection \<open>Initialisation\<close>

lemma Init_loop_result:
  "unat cnt \<le> length a \<Longrightarrow>
   \<exists>a'. Init_loop cnt i a = Inr a' \<and> length a' = length a \<and>
        (\<forall>k < length a. a' ! k = (if unat i \<le> k \<and> k < unat cnt then zero_meas else a ! k))"
proof (induction cnt i a rule: Init_loop.induct)
  case (1 cnt i a)
  show ?case
  proof (cases "unat i < unat cnt")
    case False
    then show ?thesis by (auto simp add: Init_loop.simps [of cnt i a])
  next
    case True
    with "1.prems" have inb: "unat i < length a" by simp
    have "unat i < 65535" using True unat_u8_less [of cnt] by simp
    then have s: "unat (i + 1) = Suc (unat i)" by (rule unat_succ_u16)
    let ?a1 = "a[unat i := zero_meas]"
    from "1.IH" [OF True inb] "1.prems"
    obtain a' where r: "Init_loop cnt (i + 1) ?a1 = Inr a'"
      and l: "length a' = length ?a1"
      and e: "\<forall>k < length ?a1. a' ! k =
                (if unat (i + 1) \<le> k \<and> k < unat cnt then zero_meas else ?a1 ! k)"
      by (auto simp: zero_entry)
    have "Init_loop cnt i a = Inr a'"
      using True inb r by (simp add: Init_loop.simps [of cnt i a] zero_entry)
    moreover have "length a' = length a" using l by simp
    moreover have "\<forall>k < length a. a' ! k =
                (if unat i \<le> k \<and> k < unat cnt then zero_meas else a ! k)"
    proof (intro allI impI)
      fix k assume k: "k < length a"
      show "a' ! k = (if unat i \<le> k \<and> k < unat cnt then zero_meas else a ! k)"
      proof (cases "k = unat i")
        case True
        with e k s inb show ?thesis using \<open>unat i < unat cnt\<close> by simp
      next
        case False
        with e k s show ?thesis by auto
      qed
    qed
    ultimately show ?thesis by blast
  qed
qed

lemma Init_loop_zero:
  assumes "length a = unat cnt"
  shows "Init_loop cnt 0 a = Inr (replicate (unat cnt) zero_meas)"
proof -
  from Init_loop_result [of cnt a 0] assms
  obtain a' where r: "Init_loop cnt 0 a = Inr a'" and l: "length a' = length a"
    and e: "\<forall>k < length a. a' ! k = (if unat (0 :: 16 word) \<le> k \<and> k < unat cnt then zero_meas else a ! k)"
    by auto
  have "a' = replicate (unat cnt) zero_meas"
    using l e assms by (simp add: list_eq_iff_nth_eq)
  with r show ?thesis by simp
qed

lemma Init_result:
  assumes "length (main_g_RuntimeMeas_s g) = unat cnt"
  shows "main_f_Init_v cnt g = Inr (g\<lparr>main_g_RuntimeMeas_s := replicate (unat cnt) zero_meas\<rparr>)"
  by (simp add: main_f_Init_v_def Init_loop_zero [OF assms])

lemma setup_result: "arduino_setup cnt = Inr (static_init cnt)"
  by (simp add: arduino_setup_def Init_result static_init_def)

subsection \<open>Runs of the scheduler\<close>

lemma well_formed_idle:
  "well_formed cnt g \<Longrightarrow> well_formed cnt (g\<lparr>main_g_CurrMicros_u64 := t\<rparr>)"
  by (simp add: well_formed_def)

lemma well_formed_fire:
  assumes "well_formed cnt g"
  shows "well_formed cnt
           (g\<lparr>main_g_CurrMicros_u64 := t,
              main_g_LastMicros_u64 := t',
              main_g_RuntimeMeas_s := (main_g_RuntimeMeas_s g)[k := m],
              main_g_CurrTaskIndex_u16 :=
                (if unat cnt \<le> unat (main_g_CurrTaskIndex_u16 g + 1) then 0
                 else main_g_CurrTaskIndex_u16 g + 1)\<rparr>)"
proof -
  from assms have lt: "unat (main_g_CurrTaskIndex_u16 g) < unat cnt"
    by (simp add: well_formed_def)
  then have "0 < unat cnt" by simp
  then have "Suc (unat (main_g_CurrTaskIndex_u16 g)) mod unat cnt < unat cnt" by simp
  with next_index [OF lt] assms show ?thesis
    by (simp add: well_formed_def del: One_nat_def)
qed

lemma slots_shift:
  assumes "unat (i :: 16 word) < c"
  shows "i # map (\<lambda>j. of_nat ((Suc (unat i) mod c + j) mod c)) [0..<n]
         = map (\<lambda>j. of_nat ((unat i + j) mod c)) [0..<Suc n]"
proof -
  have "(Suc (unat i) mod c + j) mod c = (unat i + Suc j) mod c" for j
    by (simp add: mod_simps)
  moreover have "(of_nat (unat i mod c) :: 16 word) = i"
    using assms by simp
  ultimately show ?thesis
    by (simp add: map_upt_Suc del: upt_Suc)
qed

lemma loop_trace:
  "well_formed cnt g \<Longrightarrow>
   \<exists>outs g'. arduino_loop cnt len clks g = Inr (outs, g') \<and> well_formed cnt g' \<and>
     fired_slots outs =
       map (\<lambda>j. of_nat ((unat (main_g_CurrTaskIndex_u16 g) + j) mod unat cnt))
         [0..<length (fired_slots outs)] \<and>
     (\<forall>i b. Some (i, b) \<in> set outs \<longrightarrow> unat i < unat cnt \<and> b = main_switch i)"
proof (induction clks arbitrary: g)
  case Nil
  then show ?case by simp
next
  case (Cons clk clks)
  let ?i = "main_g_CurrTaskIndex_u16 g"
  from Cons.prems have lt: "unat ?i < unat cnt"
    and inb: "unat ?i < length (main_g_RuntimeMeas_s g)"
    by (simp_all add: well_formed_def)
  show ?case
  proof (cases "ucast len \<le> at_Handle clk - main_g_LastMicros_u64 g")
    case False
    let ?g1 = "g\<lparr>main_g_CurrMicros_u64 := at_Handle clk\<rparr>"
    have h: "main_f_Handle_v cnt len clk g = Inr (None, ?g1)"
      using False by (rule Handle_idle)
    from Cons.IH [OF well_formed_idle [OF Cons.prems], of "at_Handle clk"]
    obtain outs g' where r: "arduino_loop cnt len clks ?g1 = Inr (outs, g')"
      and w: "well_formed cnt g'"
      and f: "fired_slots outs =
                map (\<lambda>j. of_nat ((unat (main_g_CurrTaskIndex_u16 ?g1) + j) mod unat cnt))
                  [0..<length (fired_slots outs)]"
      and b: "\<forall>i b. Some (i, b) \<in> set outs \<longrightarrow> unat i < unat cnt \<and> b = main_switch i"
      by blast
    have "arduino_loop cnt len (clk # clks) g = Inr (None # outs, g')"
      using h r by simp
    moreover have "fired_slots (None # outs) =
        map (\<lambda>j. of_nat ((unat ?i + j) mod unat cnt)) [0..<length (fired_slots (None # outs))]"
      using f by simp
    moreover have "\<forall>i b. Some (i, b) \<in> set (None # outs) \<longrightarrow> unat i < unat cnt \<and> b = main_switch i"
      using b by simp
    ultimately show ?thesis using w by blast
  next
    case True
    let ?nx = "if unat cnt \<le> unat (?i + 1) then 0 else ?i + 1"
    let ?m = "HandleRTMStats_entry
                ((main_g_RuntimeMeas_s g ! unat ?i)
                   \<lparr>currentCycle_u32 := ucast (at_StopRTM clk) - ucast (at_StartRTM clk)\<rparr>)"
    let ?g1 = "g\<lparr>main_g_CurrMicros_u64 := at_Handle clk,
                 main_g_LastMicros_u64 := at_Handle clk,
                 main_g_RuntimeMeas_s := (main_g_RuntimeMeas_s g)[unat ?i := ?m],
                 main_g_CurrTaskIndex_u16 := ?nx\<rparr>"
    have h: "main_f_Handle_v cnt len clk g = Inr (Some (?i, main_switch ?i), ?g1)"
      using True inb by (rule Handle_fire)
    have w1: "well_formed cnt ?g1"
      using Cons.prems by (rule well_formed_fire)
    have nx: "unat (main_g_CurrTaskIndex_u16 ?g1) = Suc (unat ?i) mod unat cnt"
      using next_index [OF lt] by simp
    from Cons.IH [OF w1]
    obtain outs g' where r: "arduino_loop cnt len clks ?g1 = Inr (outs, g')"
      and w: "well_formed cnt g'"
      and f: "fired_slots outs =
                map (\<lambda>j. of_nat ((unat (main_g_CurrTaskIndex_u16 ?g1) + j) mod unat cnt))
                  [0..<length (fired_slots outs)]"
      and b: "\<forall>i b. Some (i, b) \<in> set outs \<longrightarrow> unat i < unat cnt \<and> b = main_switch i"
      by blast
    let ?outs = "Some (?i, main_switch ?i) # outs"
    have "arduino_loop cnt len (clk # clks) g = Inr (?outs, g')"
      using h r by simp
    moreover have "fired_slots ?outs =
        map (\<lambda>j. of_nat ((unat ?i + j) mod unat cnt)) [0..<length (fired_slots ?outs)]"
    proof -
      have "fired_slots ?outs = ?i # fired_slots outs" by simp
      also have "\<dots> = ?i # map (\<lambda>j. of_nat ((Suc (unat ?i) mod unat cnt + j) mod unat cnt))
                               [0..<length (fired_slots outs)]"
        using f nx by simp
      also have "\<dots> = map (\<lambda>j. of_nat ((unat ?i + j) mod unat cnt))
                         [0..<Suc (length (fired_slots outs))]"
        using lt by (rule slots_shift)
      finally show ?thesis by simp
    qed
    moreover have "\<forall>i b. Some (i, b) \<in> set ?outs \<longrightarrow> unat i < unat cnt \<and> b = main_switch i"
      using b lt by auto
    ultimately show ?thesis using w by blast
  qed
qed

lemma due_later:
  assumes "unat (l :: 64 word) + unat (len :: 16 word) \<le> unat (t :: 64 word)"
  shows "ucast len \<le> t - l"
proof -
  from assms have "unat l \<le> unat t" by simp
  then have "l \<le> t" by (simp add: word_le_nat_alt)
  then have "unat (t - l) = unat t - unat l" by (rule unat_sub)
  with assms show ?thesis by (simp add: due_iff)
qed

lemma loop_all_fire:
  "well_formed cnt g \<Longrightarrow> spaced len (map at_Handle clks) \<Longrightarrow>
   (case clks of [] \<Rightarrow> True
    | clk # _ \<Rightarrow> unat (main_g_LastMicros_u64 g) + unat len \<le> unat (at_Handle clk)) \<Longrightarrow>
   arduino_loop cnt len clks g = Inr (outs, g') \<Longrightarrow>
   length (fired_slots outs) = length clks"
proof (induction clks arbitrary: g outs)
  case Nil
  then show ?case by auto
next
  case (Cons clk clks)
  let ?i = "main_g_CurrTaskIndex_u16 g"
  from Cons.prems(1) have inb: "unat ?i < length (main_g_RuntimeMeas_s g)"
    by (simp add: well_formed_def)
  from Cons.prems(3) have due: "ucast len \<le> at_Handle clk - main_g_LastMicros_u64 g"
    by (simp add: due_later)
  let ?nx = "if unat cnt \<le> unat (?i + 1) then 0 else ?i + 1"
  let ?m = "HandleRTMStats_entry
              ((main_g_RuntimeMeas_s g ! unat ?i)
                 \<lparr>currentCycle_u32 := ucast (at_StopRTM clk) - ucast (at_StartRTM clk)\<rparr>)"
  let ?g1 = "g\<lparr>main_g_CurrMicros_u64 := at_Handle clk,
               main_g_LastMicros_u64 := at_Handle clk,
               main_g_RuntimeMeas_s := (main_g_RuntimeMeas_s g)[unat ?i := ?m],
               main_g_CurrTaskIndex_u16 := ?nx\<rparr>"
  have h: "main_f_Handle_v cnt len clk g = Inr (Some (?i, main_switch ?i), ?g1)"
    using due inb by (rule Handle_fire)
  have w1: "well_formed cnt ?g1"
    using Cons.prems(1) by (rule well_formed_fire)
  from Cons.prems(4) h obtain outs' where
    r: "arduino_loop cnt len clks ?g1 = Inr (outs', g')" and o: "outs = Some (?i, main_switch ?i) # outs'"
    by (auto split: sum.splits)
  have sp: "spaced len (map at_Handle clks)"
    using Cons.prems(2) by (cases clks) simp_all
  have hd: "case clks of [] \<Rightarrow> True
            | c # _ \<Rightarrow> unat (main_g_LastMicros_u64 ?g1) + unat len \<le> unat (at_Handle c)"
    using Cons.prems(2) by (cases clks) simp_all
  from Cons.IH [OF w1 sp hd r] o show ?case by simp
qed

lemma entry_after:
  "currentCycle_u32 (HandleRTMStats_entry (m\<lparr>currentCycle_u32 := d\<rparr>)) = d"
  "maxCycle_u32 (HandleRTMStats_entry (m\<lparr>currentCycle_u32 := d\<rparr>)) = max (maxCycle_u32 m) d"
  "minCycle_u32 (HandleRTMStats_entry (m\<lparr>currentCycle_u32 := d\<rparr>)) =
     (if d < minCycle_u32 m \<or> minCycle_u32 m = 0 then d else minCycle_u32 m)"
  by (auto simp add: HandleRTMStats_entry_def Let_def max_def)

lemma record_duration_result:
  assumes "unat index < length a"
  shows "record_duration index d a =
           Inr (a[unat index := HandleRTMStats_entry ((a ! unat index)\<lparr>currentCycle_u32 := d\<rparr>)])"
  using assms by (simp add: record_duration_def main_f_HandleRTMStats_v_def)

subsection \<open>Further facts for the properties below\<close>

lemma ucast_diff_down: "(ucast ((a::64 word) - b) :: 32 word) = ucast a - ucast b"
proof -
  have dvd: "(2::int) ^ 32 dvd 2 ^ 64"
    by (rule le_imp_power_dvd) simp
  have "uint (ucast (a - b) :: 32 word) = ((uint a - uint b) mod 2 ^ 64) mod 2 ^ 32"
    by (simp add: unsigned_ucast_eq take_bit_eq_mod uint_word_ariths)
  also have "\<dots> = (uint a - uint b) mod 2 ^ 32"
    using dvd by (rule mod_mod_cancel)
  also have "\<dots> = (uint a mod 2 ^ 32 - uint b mod 2 ^ 32) mod 2 ^ 32"
    by (simp add: mod_diff_eq)
  also have "\<dots> = uint ((ucast a :: 32 word) - ucast b)"
    by (simp add: uint_word_ariths unsigned_ucast_eq take_bit_eq_mod)
  finally show ?thesis
    by (simp add: word_uint_eq_iff)
qed

lemma switch_labels: "unat (i :: 16 word) < 10 \<Longrightarrow> main_switch i \<noteq> Default"
proof -
  assume "unat i < 10"
  then have "unat i = 0 \<or> unat i = 1 \<or> unat i = 2 \<or> unat i = 3 \<or> unat i = 4 \<or>
             unat i = 5 \<or> unat i = 6 \<or> unat i = 7 \<or> unat i = 8 \<or> unat i = 9"
    by arith
  then have "i = 0 \<or> i = 1 \<or> i = 2 \<or> i = 3 \<or> i = 4 \<or> i = 5 \<or> i = 6 \<or> i = 7 \<or> i = 8 \<or> i = 9"
    by (simp add: word_unat_eq_iff)
  then show ?thesis
    by (auto simp add: main_switch_def)
qed

lemma static_init_well_formed: "1 \<le> cnt \<Longrightarrow> well_formed cnt (static_init cnt)"
  by (simp add: well_formed_def static_init_def word_le_nat_alt)

lemma run_loop: "run cnt len clks = arduino_loop cnt len clks (static_init cnt)"
  by (simp add: run_def setup_result)

lemma static_init_fields:
  "main_g_CurrTaskIndex_u16 (static_init cnt) = 0"
  "main_g_LastMicros_u64 (static_init cnt) = 0"
  "main_g_RuntimeMeas_s (static_init cnt) = replicate (unat cnt) zero_meas"
  by (simp_all add: static_init_def)

lemma record_durations_result:
  "unat index < length a \<Longrightarrow>
   \<exists>a'. record_durations index ds a = Inr a' \<and> length a' = length a \<and>
        maxCycle_u32 (a' ! unat index) = fold max ds (maxCycle_u32 (a ! unat index)) \<and>
        (ds = [] \<longrightarrow> a' = a) \<and>
        (ds \<noteq> [] \<longrightarrow> minCycle_u32 (a' ! unat index) \<le> currentCycle_u32 (a' ! unat index) \<and>
                     currentCycle_u32 (a' ! unat index) \<le> maxCycle_u32 (a' ! unat index))"
proof (induction ds arbitrary: a)
  case Nil
  then show ?case by simp
next
  case (Cons d ds)
  let ?m = "HandleRTMStats_entry ((a ! unat index)\<lparr>currentCycle_u32 := d\<rparr>)"
  let ?a1 = "a[unat index := ?m]"
  have h: "record_duration index d a = Inr ?a1"
    using Cons.prems by (rule record_duration_result)
  have inb: "unat index < length ?a1" using Cons.prems by simp
  have m1: "?a1 ! unat index = ?m" using Cons.prems by simp
  from Cons.IH [OF inb]
  obtain a' where r: "record_durations index ds ?a1 = Inr a'"
    and l: "length a' = length ?a1"
    and mx: "maxCycle_u32 (a' ! unat index) = fold max ds (maxCycle_u32 (?a1 ! unat index))"
    and e: "ds = [] \<longrightarrow> a' = ?a1"
    and b: "ds \<noteq> [] \<longrightarrow> minCycle_u32 (a' ! unat index) \<le> currentCycle_u32 (a' ! unat index) \<and>
                     currentCycle_u32 (a' ! unat index) \<le> maxCycle_u32 (a' ! unat index)"
    by blast
  have "record_durations index (d # ds) a = Inr a'" using h r by simp
  moreover have "length a' = length a" using l by simp
  moreover have "maxCycle_u32 (a' ! unat index) = fold max (d # ds) (maxCycle_u32 (a ! unat index))"
    using mx m1 by (simp add: entry_after max.commute)
  moreover have "minCycle_u32 (a' ! unat index) \<le> currentCycle_u32 (a' ! unat index) \<and>
                 currentCycle_u32 (a' ! unat index) \<le> maxCycle_u32 (a' ! unat index)"
  proof (cases "ds = []")
    case True
    with e m1 show ?thesis by (auto simp add: entry_after)
  next
    case False
    with b show ?thesis by simp
  qed
  ultimately show ?case by simp
qed

lemma fold_max_zero:
  "ds \<noteq> [] \<Longrightarrow> fold max ds (0 :: 32 word) = Max (set ds)"
proof -
  assume ne: "ds \<noteq> []"
  have "fold max ds (0 :: 32 word) = Max (set (0 # ds))"
    by (simp only: Max.set_eq_fold)
  also have "\<dots> = max 0 (Max (set ds))"
    using ne by simp
  also have "\<dots> = Max (set ds)"
    by (simp add: max_def)
  finally show ?thesis .
qed

subsection \<open>The model on concrete runs\<close>

text \<open>The shipped slot length: \<open>1000 * 10 / 10\<close> microseconds.\<close>

lemma shipped_slot_length: "main_c_CycleTaskLengthUs_u16 = 1000"
  by (simp add: main_c_CycleTaskLengthUs_u16_def main_c_CycleLengthMS_u8_def
      main_c_CycleTaskCount_u8_def)

text \<open>
  Ten slots of 1000 microseconds, calls at 1000, 2000, ..., 10000: slots 0 to 9 fire
  once each, in order.
\<close>

lemma ten_calls_ten_slots:
  "map_sum id (fired_slots \<circ> fst)
     (run 10 1000
        (map (\<lambda>k. \<lparr>at_Handle = 1000 * of_nat k, at_StartRTM = 1000 * of_nat k + 1,
                    at_StopRTM = 1000 * of_nat k + 30\<rparr>) [1..<11]))
   = Inr [0, 1, 2, 3, 4, 5, 6, 7, 8, 9]"
  by code_simp

text \<open>Slot 3 measured with 50, 20 and 80 microseconds: current 80, minimum 20, maximum 80.\<close>

lemma durations_50_20_80:
  "record_durations 3 [50, 20, 80] (replicate 10 zero_meas) =
     Inr ((replicate 10 zero_meas)
            [3 := \<lparr>currentCycle_u32 = 80, minCycle_u32 = 20, maxCycle_u32 = 80\<rparr>])"
  by code_simp

text \<open>
  A measured duration of 0 puts the minimum back to the sentinel, and the next
  duration replaces it: after 5, 0 and 7 the minimum is 7.
\<close>

lemma durations_5_0_7:
  "record_durations 3 [5, 0, 7] (replicate 10 zero_meas) =
     Inr ((replicate 10 zero_meas)
            [3 := \<lparr>currentCycle_u32 = 7, minCycle_u32 = 7, maxCycle_u32 = 7\<rparr>])"
  by code_simp

section \<open>Properties of the scheduler and of the measurement ledger\<close>

text \<open>
  C1 (slot ordering). After \<open>setup()\<close>, for every task count of at least 1 and
  every sequence of calls of \<open>main_f_Handle_v\<close> whose entry clock readings grow
  and lie at least the slot length apart, the slot indices on which the switch runs
  are exactly 0, 1, ..., count - 1, 0, 1, ... in this order: the k-th dispatch is on
  slot k mod count. Every call dispatches, except that the very first one stays
  idle when its reading is still below the slot length (the last-fire time starts
  at 0).
\<close>

theorem slot_order:
  assumes "1 \<le> cnt" and "spaced len (map at_Handle clks)"
  shows "\<exists>outs g. run cnt len clks = Inr (outs, g) \<and>
           fired_slots outs = map (\<lambda>k. of_nat (k mod unat cnt)) [0..<length (fired_slots outs)] \<and>
           length (fired_slots outs) =
             length clks - (case clks of [] \<Rightarrow> 0
                            | clk # _ \<Rightarrow> if at_Handle clk < ucast len then 1 else 0)"
proof -
  let ?g0 = "static_init cnt"
  have w0: "well_formed cnt ?g0"
    using assms(1) by (rule static_init_well_formed)
  from loop_trace [OF w0, of len clks]
  obtain outs g where r: "arduino_loop cnt len clks ?g0 = Inr (outs, g)"
    and f: "fired_slots outs = map (\<lambda>k. of_nat (k mod unat cnt)) [0..<length (fired_slots outs)]"
    by (auto simp add: static_init_fields)
  have "length (fired_slots outs) =
          length clks - (case clks of [] \<Rightarrow> 0
                         | clk # _ \<Rightarrow> if at_Handle clk < ucast len then 1 else 0)"
  proof (cases clks)
    case Nil
    with r show ?thesis by auto
  next
    case (Cons clk rest)
    show ?thesis
    proof (cases "at_Handle clk < ucast len")
      case False
      then have "ucast len \<le> at_Handle clk" by (simp add: not_less)
      then have "unat (main_g_LastMicros_u64 ?g0) + unat len \<le> unat (at_Handle clk)"
        by (simp add: due_iff static_init_fields)
      then have "case clks of [] \<Rightarrow> True
                 | c # _ \<Rightarrow> unat (main_g_LastMicros_u64 ?g0) + unat len \<le> unat (at_Handle c)"
        using Cons by simp
      from loop_all_fire [OF w0 assms(2) this r] False Cons show ?thesis by simp
    next
      case True
      let ?g1 = "?g0\<lparr>main_g_CurrMicros_u64 := at_Handle clk\<rparr>"
      from True have "\<not> ucast len \<le> at_Handle clk - main_g_LastMicros_u64 ?g0"
        by (simp add: not_le static_init_fields)
      then have h: "main_f_Handle_v cnt len clk ?g0 = Inr (None, ?g1)"
        by (rule Handle_idle)
      from r h Cons obtain outs' where
        r': "arduino_loop cnt len rest ?g1 = Inr (outs', g)" and o: "outs = None # outs'"
        by (auto split: sum.splits)
      have w1: "well_formed cnt ?g1"
        using w0 by (rule well_formed_idle)
      have sp: "spaced len (map at_Handle rest)"
        using assms(2) Cons by (cases rest) simp_all
      have hd: "case rest of [] \<Rightarrow> True
                | c # _ \<Rightarrow> unat (main_g_LastMicros_u64 ?g1) + unat len \<le> unat (at_Handle c)"
        using assms(2) Cons by (cases rest) (simp_all add: static_init_fields)
      from loop_all_fire [OF w1 sp hd r'] o True Cons show ?thesis by simp
    qed
  qed
  with r f show ?thesis by (simp add: run_loop)
qed

theorem slot_order_witness:
  "1 \<le> (2 :: 8 word) \<and>
   spaced 1000 (map at_Handle
     [\<lparr>at_Handle = 1000, at_StartRTM = 1001, at_StopRTM = 1040\<rparr>,
      \<lparr>at_Handle = 2000, at_StartRTM = 2001, at_StopRTM = 2040\<rparr>,
      \<lparr>at_Handle = 3500, at_StartRTM = 3501, at_StopRTM = 3540\<rparr>]) \<and>
   (\<exists>outs g. run 2 1000
       [\<lparr>at_Handle = 1000, at_StartRTM = 1001, at_StopRTM = 1040\<rparr>,
        \<lparr>at_Handle = 2000, at_StartRTM = 2001, at_StopRTM = 2040\<rparr>,
        \<lparr>at_Handle = 3500, at_StartRTM = 3501, at_StopRTM = 3540\<rparr>] = Inr (outs, g) \<and>
      fired_slots outs = [0, 1, 0])"
proof -
  let ?clks = "[\<lparr>at_Handle = 1000, at_StartRTM = 1001, at_StopRTM = 1040\<rparr>,
      \<lparr>at_Handle = 2000, at_StartRTM = 2001, at_StopRTM = 2040\<rparr>,
      \<lparr>at_Handle = 3500 :: 64 word, at_StartRTM = 3501 :: 64 word, at_StopRTM = 3540 :: 64 word\<rparr>]"
  have h1: "1 \<le> (2 :: 8 word)" by simp
  have h2: "spaced 1000 (map at_Handle ?clks)" by simp
  from slot_order [OF h1 h2]
  obtain outs g where r: "run 2 1000 ?clks = Inr (outs, g)"
    and f: "fired_slots outs = map (\<lambda>k. of_nat (k mod unat (2 :: 8 word))) [0..<length (fired_slots outs)]"
    and n: "length (fired_slots outs) =
              length ?clks - (case ?clks of [] \<Rightarrow> 0
                              | clk # _ \<Rightarrow> if at_Handle clk < ucast (1000 :: 16 word) then 1 else 0)"
    by blast
  from n have "length (fired_slots outs) = 3" by simp
  with f have "fired_slots outs = [0, 1, 0]"
    by (simp add: upt_rec)
  with h1 h2 r show ?thesis by blast
qed

text \<open>
  C2 (no double fire). In every state, a call of \<open>main_f_Handle_v\<close> whose clock
  reading is less than the slot length past \<open>main_g_LastMicros_u64\<close> runs no switch
  branch and leaves \<open>main_g_CurrTaskIndex_u16\<close>, \<open>main_g_LastMicros_u64\<close> and the
  whole array \<open>main_g_RuntimeMeas_s\<close> as they were.
\<close>

theorem not_due_no_effect:
  assumes "at_Handle clk - main_g_LastMicros_u64 g < ucast len"
  shows "\<exists>g'. main_f_Handle_v cnt len clk g = Inr (None, g') \<and>
           main_g_CurrTaskIndex_u16 g' = main_g_CurrTaskIndex_u16 g \<and>
           main_g_LastMicros_u64 g' = main_g_LastMicros_u64 g \<and>
           main_g_RuntimeMeas_s g' = main_g_RuntimeMeas_s g"
proof -
  from assms have "\<not> ucast len \<le> at_Handle clk - main_g_LastMicros_u64 g"
    by (simp add: not_le)
  then have "main_f_Handle_v cnt len clk g = Inr (None, g\<lparr>main_g_CurrMicros_u64 := at_Handle clk\<rparr>)"
    by (rule Handle_idle)
  then show ?thesis by simp
qed

theorem not_due_no_effect_witness:
  "at_Handle \<lparr>at_Handle = 999, at_StartRTM = 0, at_StopRTM = 0\<rparr>
     - main_g_LastMicros_u64 (static_init 10) < ucast (1000 :: 16 word) \<and>
   (\<exists>g'. main_f_Handle_v 10 1000 \<lparr>at_Handle = 999, at_StartRTM = 0, at_StopRTM = 0\<rparr> (static_init 10)
            = Inr (None, g') \<and>
      main_g_CurrTaskIndex_u16 g' = 0 \<and> main_g_LastMicros_u64 g' = 0 \<and>
      main_g_RuntimeMeas_s g' = replicate 10 zero_meas)"
proof -
  let ?clk = "\<lparr>at_Handle = 999 :: 64 word, at_StartRTM = 0 :: 64 word, at_StopRTM = 0 :: 64 word\<rparr>"
  have h: "at_Handle ?clk - main_g_LastMicros_u64 (static_init 10) < ucast (1000 :: 16 word)"
    by (simp add: static_init_def)
  from not_due_no_effect [OF h, of 10] h show ?thesis
    by (simp add: static_init_def)
qed

text \<open>
  C3 (minimum, current, maximum). For every slot below the count and every finite
  list of durations recorded in that slot of the freshly initialised array: before
  any record the three fields are 0; after one or more records
  \<open>minCycle_u32 \<le> currentCycle_u32 \<le> maxCycle_u32\<close>, and \<open>maxCycle_u32\<close> is the
  greatest duration recorded. The list is arbitrary, so this holds after each
  operation of a longer run.
\<close>

theorem measurement_bounds:
  assumes "unat index < unat cnt"
  shows "\<exists>g a. arduino_setup cnt = Inr g \<and>
           record_durations index ds (main_g_RuntimeMeas_s g) = Inr a \<and>
           (ds = [] \<longrightarrow>
              currentCycle_u32 (a ! unat index) = 0 \<and> minCycle_u32 (a ! unat index) = 0 \<and>
              maxCycle_u32 (a ! unat index) = 0) \<and>
           (ds \<noteq> [] \<longrightarrow>
              minCycle_u32 (a ! unat index) \<le> currentCycle_u32 (a ! unat index) \<and>
              currentCycle_u32 (a ! unat index) \<le> maxCycle_u32 (a ! unat index) \<and>
              maxCycle_u32 (a ! unat index) = Max (set ds))"
proof -
  let ?a0 = "main_g_RuntimeMeas_s (static_init cnt)"
  have inb: "unat index < length ?a0"
    using assms by (simp add: static_init_fields)
  have z: "?a0 ! unat index = zero_meas"
    using assms by (simp add: static_init_fields)
  from record_durations_result [OF inb, of ds]
  obtain a where r: "record_durations index ds ?a0 = Inr a"
    and mx: "maxCycle_u32 (a ! unat index) = fold max ds (maxCycle_u32 (?a0 ! unat index))"
    and e: "ds = [] \<longrightarrow> a = ?a0"
    and b: "ds \<noteq> [] \<longrightarrow> minCycle_u32 (a ! unat index) \<le> currentCycle_u32 (a ! unat index) \<and>
                     currentCycle_u32 (a ! unat index) \<le> maxCycle_u32 (a ! unat index)"
    by blast
  have "ds \<noteq> [] \<longrightarrow> maxCycle_u32 (a ! unat index) = Max (set ds)"
    using mx z by (simp add: zero_meas_def fold_max_zero)
  moreover have "ds = [] \<longrightarrow>
              currentCycle_u32 (a ! unat index) = 0 \<and> minCycle_u32 (a ! unat index) = 0 \<and>
              maxCycle_u32 (a ! unat index) = 0"
    using e z by (simp add: zero_meas_def)
  ultimately show ?thesis using r b by (simp add: setup_result)
qed

theorem measurement_bounds_witness:
  "unat (3 :: 16 word) < unat (10 :: 8 word) \<and>
   (\<exists>g a. arduino_setup 10 = Inr g \<and>
      record_durations 3 [] (main_g_RuntimeMeas_s g) = Inr a \<and>
      currentCycle_u32 (a ! unat (3 :: 16 word)) = 0 \<and>
      minCycle_u32 (a ! unat (3 :: 16 word)) = 0 \<and>
      maxCycle_u32 (a ! unat (3 :: 16 word)) = 0) \<and>
   (\<exists>g a. arduino_setup 10 = Inr g \<and>
      record_durations 3 [50, 20, 80] (main_g_RuntimeMeas_s g) = Inr a \<and>
      minCycle_u32 (a ! unat (3 :: 16 word)) \<le> currentCycle_u32 (a ! unat (3 :: 16 word)) \<and>
      currentCycle_u32 (a ! unat (3 :: 16 word)) \<le> maxCycle_u32 (a ! unat (3 :: 16 word)) \<and>
      maxCycle_u32 (a ! unat (3 :: 16 word)) = 80)"
proof -
  have h: "unat (3 :: 16 word) < unat (10 :: 8 word)" by simp
  have m: "Max (set [50, 20, 80 :: 32 word]) = 80" by simp
  from measurement_bounds [OF h, of "[]"]
  have e: "\<exists>g a. arduino_setup 10 = Inr g \<and>
      record_durations 3 [] (main_g_RuntimeMeas_s g) = Inr a \<and>
      currentCycle_u32 (a ! unat (3 :: 16 word)) = 0 \<and>
      minCycle_u32 (a ! unat (3 :: 16 word)) = 0 \<and>
      maxCycle_u32 (a ! unat (3 :: 16 word)) = 0"
    by (simp del: unat_numeral record_durations.simps)
  from measurement_bounds [OF h, of "[50, 20, 80]"] m
  have n: "\<exists>g a. arduino_setup 10 = Inr g \<and>
      record_durations 3 [50, 20, 80] (main_g_RuntimeMeas_s g) = Inr a \<and>
      minCycle_u32 (a ! unat (3 :: 16 word)) \<le> currentCycle_u32 (a ! unat (3 :: 16 word)) \<and>
      currentCycle_u32 (a ! unat (3 :: 16 word)) \<le> maxCycle_u32 (a ! unat (3 :: 16 word)) \<and>
      maxCycle_u32 (a ! unat (3 :: 16 word)) = 80"
    by (simp del: set_simps unat_numeral record_durations.simps)
  from h e n show ?thesis by blast
qed

text \<open>
  C4 (sentinel replacement). For every slot inside the array whose \<open>minCycle_u32\<close>
  is 0 and every duration \<open>d\<close>, also \<open>d = 0\<close>, the next record operation leaves
  \<open>minCycle_u32 = d\<close>.
\<close>

theorem sentinel_replaced:
  assumes "unat index < length a" and "minCycle_u32 (a ! unat index) = 0"
  shows "\<exists>a'. record_duration index d a = Inr a' \<and> minCycle_u32 (a' ! unat index) = d"
  using assms by (simp add: record_duration_result entry_after)

theorem sentinel_replaced_witness:
  "unat (3 :: 16 word) < length (replicate 10 zero_meas) \<and>
   minCycle_u32 (replicate 10 zero_meas ! unat (3 :: 16 word)) = 0 \<and>
   (\<exists>a'. record_duration 3 0 (replicate 10 zero_meas) = Inr a' \<and>
          minCycle_u32 (a' ! unat (3 :: 16 word)) = 0) \<and>
   (\<exists>a'. record_duration 3 7 (replicate 10 zero_meas) = Inr a' \<and>
          minCycle_u32 (a' ! unat (3 :: 16 word)) = 7)"
proof -
  have h1: "unat (3 :: 16 word) < length (replicate 10 zero_meas)" by simp
  have h2: "minCycle_u32 (replicate 10 zero_meas ! unat (3 :: 16 word)) = 0"
    by (simp add: zero_meas_def)
  from sentinel_replaced [OF h1 h2, of 0] sentinel_replaced [OF h1 h2, of 7] h1 h2
  show ?thesis by blast
qed

text \<open>
  C5 (one dispatch, no catching up). In every state the data model admits, a call
  of \<open>main_f_Handle_v\<close> whose reading is at least the slot length past the last
  fire runs the switch once, on the current task index, sets
  \<open>main_g_LastMicros_u64\<close> to the reading itself and moves the index one position
  on, wrapping at the count. However long the elapsed time was, a following call
  less than one slot length after that reading stays idle: nothing is made up.
\<close>

theorem fires_once:
  assumes "well_formed cnt g"
    and "ucast len \<le> at_Handle clk - main_g_LastMicros_u64 g"
  shows "\<exists>g'. main_f_Handle_v cnt len clk g =
                 Inr (Some (main_g_CurrTaskIndex_u16 g, main_switch (main_g_CurrTaskIndex_u16 g)), g') \<and>
           main_g_LastMicros_u64 g' = at_Handle clk \<and>
           unat (main_g_CurrTaskIndex_u16 g') = Suc (unat (main_g_CurrTaskIndex_u16 g)) mod unat cnt \<and>
           well_formed cnt g' \<and>
           (\<forall>clk'. at_Handle clk' - at_Handle clk < ucast len \<longrightarrow>
                    (\<exists>g''. main_f_Handle_v cnt len clk' g' = Inr (None, g'')))"
proof -
  let ?i = "main_g_CurrTaskIndex_u16 g"
  from assms(1) have lt: "unat ?i < unat cnt"
    and inb: "unat ?i < length (main_g_RuntimeMeas_s g)"
    by (simp_all add: well_formed_def)
  let ?nx = "if unat cnt \<le> unat (?i + 1) then 0 else ?i + 1"
  let ?m = "HandleRTMStats_entry
              ((main_g_RuntimeMeas_s g ! unat ?i)
                 \<lparr>currentCycle_u32 := ucast (at_StopRTM clk) - ucast (at_StartRTM clk)\<rparr>)"
  let ?g1 = "g\<lparr>main_g_CurrMicros_u64 := at_Handle clk,
               main_g_LastMicros_u64 := at_Handle clk,
               main_g_RuntimeMeas_s := (main_g_RuntimeMeas_s g)[unat ?i := ?m],
               main_g_CurrTaskIndex_u16 := ?nx\<rparr>"
  have h: "main_f_Handle_v cnt len clk g = Inr (Some (?i, main_switch ?i), ?g1)"
    using assms(2) inb by (rule Handle_fire)
  have w1: "well_formed cnt ?g1"
    using assms(1) by (rule well_formed_fire)
  have nx: "unat (main_g_CurrTaskIndex_u16 ?g1) = Suc (unat ?i) mod unat cnt"
    using next_index [OF lt] by simp
  have l: "main_g_LastMicros_u64 ?g1 = at_Handle clk" by simp
  have "\<exists>g''. main_f_Handle_v cnt len clk' ?g1 = Inr (None, g'')"
    if "at_Handle clk' - at_Handle clk < ucast len" for clk'
  proof -
    from that l have "\<not> ucast len \<le> at_Handle clk' - main_g_LastMicros_u64 ?g1"
      by (simp add: not_le)
    then have "main_f_Handle_v cnt len clk' ?g1 =
                 Inr (None, ?g1\<lparr>main_g_CurrMicros_u64 := at_Handle clk'\<rparr>)"
      by (rule Handle_idle)
    then show ?thesis by blast
  qed
  with h w1 nx l show ?thesis by blast
qed

theorem fires_once_witness:
  "well_formed 10 (static_init 10) \<and>
   ucast (1000 :: 16 word)
     \<le> at_Handle \<lparr>at_Handle = 5000, at_StartRTM = 5001, at_StopRTM = 5040\<rparr>
         - main_g_LastMicros_u64 (static_init 10) \<and>
   (\<exists>g'. main_f_Handle_v 10 1000 \<lparr>at_Handle = 5000, at_StartRTM = 5001, at_StopRTM = 5040\<rparr>
             (static_init 10) = Inr (Some (0, Call btn_Handle_v), g') \<and>
      main_g_LastMicros_u64 g' = 5000 \<and>
      unat (main_g_CurrTaskIndex_u16 g') = 1 \<and>
      (\<exists>g''. main_f_Handle_v 10 1000 \<lparr>at_Handle = 5999, at_StartRTM = 0, at_StopRTM = 0\<rparr> g'
               = Inr (None, g'')))"
proof -
  let ?clk = "\<lparr>at_Handle = 5000 :: 64 word, at_StartRTM = 5001 :: 64 word, at_StopRTM = 5040 :: 64 word\<rparr>"
  let ?clk' = "\<lparr>at_Handle = 5999 :: 64 word, at_StartRTM = 0 :: 64 word, at_StopRTM = 0 :: 64 word\<rparr>"
  have h1: "well_formed 10 (static_init 10)"
    by (simp add: well_formed_def static_init_def)
  have h2: "ucast (1000 :: 16 word) \<le> at_Handle ?clk - main_g_LastMicros_u64 (static_init 10)"
    by (simp add: static_init_def)
  have h3: "at_Handle ?clk' - at_Handle ?clk < ucast (1000 :: 16 word)"
    by simp
  from fires_once [OF h1 h2]
  obtain g' where r: "main_f_Handle_v 10 1000 ?clk (static_init 10) =
        Inr (Some (main_g_CurrTaskIndex_u16 (static_init 10),
                   main_switch (main_g_CurrTaskIndex_u16 (static_init 10))), g')"
    and l: "main_g_LastMicros_u64 g' = at_Handle ?clk"
    and n: "unat (main_g_CurrTaskIndex_u16 g') =
              Suc (unat (main_g_CurrTaskIndex_u16 (static_init 10))) mod unat (10 :: 8 word)"
    and c: "\<forall>clk'. at_Handle clk' - at_Handle ?clk < ucast (1000 :: 16 word) \<longrightarrow>
                    (\<exists>g''. main_f_Handle_v 10 1000 clk' g' = Inr (None, g''))"
    by blast
  from c h3 have "\<exists>g''. main_f_Handle_v 10 1000 ?clk' g' = Inr (None, g'')"
    by blast
  moreover from r have "main_f_Handle_v 10 1000 ?clk (static_init 10) =
        Inr (Some (0, Call btn_Handle_v), g')"
    by (simp add: static_init_def main_switch_def)
  moreover from l have "main_g_LastMicros_u64 g' = 5000" by simp
  moreover from n have "unat (main_g_CurrTaskIndex_u16 g') = 1"
    by (simp add: static_init_def)
  ultimately show ?thesis using h1 h2 by blast
qed

text \<open>
  C6 (wrap-around of the clock). The elapsed time that \<open>main_f_Handle_v\<close> compares
  with the slot length is the difference of the two 64-bit values modulo \<open>2 ^ 64\<close>:
  the reading minus the last-fire time when the reading is the larger, and the
  reading plus \<open>2 ^ 64\<close> minus the last-fire time when the clock has wrapped. The
  call dispatches exactly when that value reaches the slot length.
\<close>

theorem wraparound_elapsed:
  assumes "unat (main_g_CurrTaskIndex_u16 g) < length (main_g_RuntimeMeas_s g)"
  shows "(\<exists>out g'. main_f_Handle_v cnt len clk g = Inr (Some out, g')) =
         (unat len \<le>
            (if unat (main_g_LastMicros_u64 g) \<le> unat (at_Handle clk)
             then unat (at_Handle clk) - unat (main_g_LastMicros_u64 g)
             else unat (at_Handle clk) + 2 ^ 64 - unat (main_g_LastMicros_u64 g)))"
proof -
  have e: "unat (at_Handle clk - main_g_LastMicros_u64 g) =
             (if unat (main_g_LastMicros_u64 g) \<le> unat (at_Handle clk)
              then unat (at_Handle clk) - unat (main_g_LastMicros_u64 g)
              else unat (at_Handle clk) + 2 ^ 64 - unat (main_g_LastMicros_u64 g))"
    by (simp add: unat_sub_if_size word_size)
  show ?thesis
  proof (cases "ucast len \<le> at_Handle clk - main_g_LastMicros_u64 g")
    case True
    from Handle_fire [OF True assms, of cnt] have
      "\<exists>out g'. main_f_Handle_v cnt len clk g = Inr (Some out, g')" by blast
    moreover from True have "unat len \<le> unat (at_Handle clk - main_g_LastMicros_u64 g)"
      by (simp add: due_iff)
    ultimately show ?thesis using e by simp
  next
    case False
    from Handle_idle [OF False, of cnt] have
      "\<not> (\<exists>out g'. main_f_Handle_v cnt len clk g = Inr (Some out, g'))" by simp
    moreover from False have "\<not> unat len \<le> unat (at_Handle clk - main_g_LastMicros_u64 g)"
      by (simp add: due_iff)
    ultimately show ?thesis using e by simp
  qed
qed

theorem wraparound_elapsed_witness:
  "unat (main_g_CurrTaskIndex_u16 ((static_init 10)\<lparr>main_g_LastMicros_u64 := 18446744073709551516\<rparr>))
     < length (main_g_RuntimeMeas_s ((static_init 10)\<lparr>main_g_LastMicros_u64 := 18446744073709551516\<rparr>)) \<and>
   (\<exists>out g'. main_f_Handle_v 10 1000 \<lparr>at_Handle = 900, at_StartRTM = 901, at_StopRTM = 940\<rparr>
                ((static_init 10)\<lparr>main_g_LastMicros_u64 := 18446744073709551516\<rparr>)
              = Inr (Some out, g')) \<and>
   \<not> (\<exists>out g'. main_f_Handle_v 10 1000 \<lparr>at_Handle = 899, at_StartRTM = 0, at_StopRTM = 0\<rparr>
                ((static_init 10)\<lparr>main_g_LastMicros_u64 := 18446744073709551516\<rparr>)
              = Inr (Some out, g'))"
proof -
  let ?g = "(static_init 10)\<lparr>main_g_LastMicros_u64 := 18446744073709551516\<rparr>"
  have h: "unat (main_g_CurrTaskIndex_u16 ?g) < length (main_g_RuntimeMeas_s ?g)"
    by (simp add: static_init_def)
  have l: "unat (main_g_LastMicros_u64 ?g) = 18446744073709551516" by simp
  from wraparound_elapsed [OF h, of 10 1000 "\<lparr>at_Handle = 900, at_StartRTM = 901, at_StopRTM = 940\<rparr>"]
  have a: "\<exists>out g'. main_f_Handle_v 10 1000 \<lparr>at_Handle = 900, at_StartRTM = 901, at_StopRTM = 940\<rparr> ?g
              = Inr (Some out, g')"
    by (simp only: l) simp
  from wraparound_elapsed [OF h, of 10 1000 "\<lparr>at_Handle = 899, at_StartRTM = 0, at_StopRTM = 0\<rparr>"]
  have b: "\<not> (\<exists>out g'. main_f_Handle_v 10 1000 \<lparr>at_Handle = 899, at_StartRTM = 0, at_StopRTM = 0\<rparr> ?g
              = Inr (Some out, g'))"
    by (simp only: l) simp
  from h a b show ?thesis by blast
qed




text \<open>
  C8, as the code has it. After \<open>setup()\<close> every measurement record is all zero,
  the task index is 0, and \<open>main_g_LastMicros_u64\<close> is 0, its initialiser:
  \<open>main_f_Init_v\<close> reads no clock.
\<close>

theorem Init_postcondition:
  "\<exists>g. arduino_setup cnt = Inr g \<and>
       main_g_RuntimeMeas_s g = replicate (unat cnt) zero_meas \<and>
       main_g_CurrTaskIndex_u16 g = 0 \<and>
       main_g_LastMicros_u64 g = 0"
  by (simp add: setup_result static_init_fields)

text \<open>
  The last-fire time after initialisation is 0, whatever the clock shows: it is not
  a reading of 5000, and a first call at 5001 with slot length 1000 dispatches at
  once, its elapsed time being counted from 0.
\<close>

theorem Init_last_counterexample:
  "arduino_setup 10 = Inr (static_init 10) \<and>
   main_g_LastMicros_u64 (static_init 10) = 0 \<and>
   main_g_LastMicros_u64 (static_init 10) \<noteq> 5000 \<and>
   map_sum id fst
     (run 10 1000 [\<lparr>at_Handle = 5001, at_StartRTM = 5002, at_StopRTM = 5003\<rparr>])
     = Inr [Some (0, Call btn_Handle_v)]"
proof -
  let ?clk = "\<lparr>at_Handle = 5001 :: 64 word, at_StartRTM = 5002 :: 64 word, at_StopRTM = 5003 :: 64 word\<rparr>"
  have d: "ucast (1000 :: 16 word) \<le> at_Handle ?clk - main_g_LastMicros_u64 (static_init 10)"
    by (simp add: static_init_def)
  have i: "unat (main_g_CurrTaskIndex_u16 (static_init 10)) < length (main_g_RuntimeMeas_s (static_init 10))"
    by (simp add: static_init_def)
  have "map_sum id fst (run 10 1000 [?clk]) = Inr [Some (0, Call btn_Handle_v)]"
    by (simp add: run_loop Handle_fire [OF d i] static_init_fields main_switch_def)
  then show ?thesis
    by (simp add: setup_result static_init_fields)
qed

text \<open>
  C9 (index in range). For every task count of at least 1, every run of the
  program from \<open>setup()\<close> completes without an access outside
  \<open>main_g_RuntimeMeas_s\<close>; it ends with the task index below the count and the
  array as long as the count; every dispatch was on an index below the count. The
  switch has labels 0 to 9, so for a count of at most 10, as shipped, no dispatch
  took the default branch.
\<close>

theorem index_in_range:
  assumes "1 \<le> cnt"
  shows "\<exists>outs g. run cnt len clks = Inr (outs, g) \<and>
           unat (main_g_CurrTaskIndex_u16 g) < unat cnt \<and>
           length (main_g_RuntimeMeas_s g) = unat cnt \<and>
           (\<forall>i b. Some (i, b) \<in> set outs \<longrightarrow> unat i < unat cnt \<and> b = main_switch i) \<and>
           (cnt \<le> 10 \<longrightarrow> (\<forall>i b. Some (i, b) \<in> set outs \<longrightarrow> b \<noteq> Default))"
proof -
  let ?g0 = "static_init cnt"
  have w0: "well_formed cnt ?g0"
    using assms by (rule static_init_well_formed)
  from loop_trace [OF w0, of len clks]
  obtain outs g where r: "arduino_loop cnt len clks ?g0 = Inr (outs, g)"
    and w: "well_formed cnt g"
    and b: "\<forall>i b. Some (i, b) \<in> set outs \<longrightarrow> unat i < unat cnt \<and> b = main_switch i"
    by blast
  have "\<forall>i b. Some (i, b) \<in> set outs \<longrightarrow> b \<noteq> Default" if "cnt \<le> 10"
  proof (intro allI impI)
    fix i b assume "Some (i, b) \<in> set outs"
    with b have "unat i < unat cnt" and e: "b = main_switch i" by auto
    moreover from that have "unat cnt \<le> 10" by (simp add: word_le_nat_alt)
    ultimately have "unat i < 10" by simp
    then show "b \<noteq> Default" using e by (simp add: switch_labels)
  qed
  with r w b show ?thesis by (simp add: run_loop well_formed_def)
qed

theorem index_in_range_witness:
  "1 \<le> (10 :: 8 word) \<and> (10 :: 8 word) \<le> 10 \<and>
   (\<exists>outs g. run 10 1000 [\<lparr>at_Handle = 1000, at_StartRTM = 1001, at_StopRTM = 1040\<rparr>] = Inr (outs, g) \<and>
      outs = [Some (0, main_switch 0)] \<and>
      main_switch 0 \<noteq> Default \<and>
      unat (main_g_CurrTaskIndex_u16 g) < unat (10 :: 8 word) \<and>
      length (main_g_RuntimeMeas_s g) = unat (10 :: 8 word))"
proof -
  let ?clk = "\<lparr>at_Handle = 1000 :: 64 word, at_StartRTM = 1001 :: 64 word, at_StopRTM = 1040 :: 64 word\<rparr>"
  have h: "1 \<le> (10 :: 8 word)" by simp
  have h': "(10 :: 8 word) \<le> 10" by simp
  have d: "ucast (1000 :: 16 word) \<le> at_Handle ?clk - main_g_LastMicros_u64 (static_init 10)"
    by (simp add: static_init_def)
  have i: "unat (main_g_CurrTaskIndex_u16 (static_init 10)) < length (main_g_RuntimeMeas_s (static_init 10))"
    by (simp add: static_init_def)
  from index_in_range [OF h, of 1000 "[?clk]"]
  obtain outs g where r: "run 10 1000 [?clk] = Inr (outs, g)"
    and b: "unat (main_g_CurrTaskIndex_u16 g) < unat (10 :: 8 word)"
    and l: "length (main_g_RuntimeMeas_s g) = unat (10 :: 8 word)"
    and n: "(10 :: 8 word) \<le> 10 \<longrightarrow> (\<forall>i b. Some (i, b) \<in> set outs \<longrightarrow> b \<noteq> Default)"
    by blast
  from r have o: "outs = [Some (0, main_switch 0)]"
    by (simp add: run_loop Handle_fire [OF d i] static_init_fields)
  with n h' have "main_switch 0 \<noteq> Default" by simp
  with r o b l h h' show ?thesis by blast
qed

text \<open>
  C10 (32-bit duration). When a slot fires, the value stored in its
  \<open>currentCycle_u32\<close> is what \<open>main_f_StopRTM_v\<close> returns for the two readings: their
  difference in 32-bit wrap-around arithmetic. For readings in order this is the
  true difference modulo \<open>2 ^ 32\<close>, while the due check of the same call compares
  64-bit values.
\<close>

theorem duration_mod_2_32:
  assumes "ucast len \<le> at_Handle clk - main_g_LastMicros_u64 g"
    and "unat (main_g_CurrTaskIndex_u16 g) < length (main_g_RuntimeMeas_s g)"
  shows "\<exists>out g'. main_f_Handle_v cnt len clk g = Inr (out, g') \<and>
           currentCycle_u32 (main_g_RuntimeMeas_s g' ! unat (main_g_CurrTaskIndex_u16 g)) =
             main_f_StopRTM_v (at_StopRTM clk) (main_f_StartRTM_v (at_StartRTM clk)) \<and>
           main_f_StopRTM_v (at_StopRTM clk) (main_f_StartRTM_v (at_StartRTM clk)) =
             ucast (at_StopRTM clk) - ucast (at_StartRTM clk) \<and>
           (at_StartRTM clk \<le> at_StopRTM clk \<longrightarrow>
              unat (currentCycle_u32 (main_g_RuntimeMeas_s g' ! unat (main_g_CurrTaskIndex_u16 g))) =
                (unat (at_StopRTM clk) - unat (at_StartRTM clk)) mod 2 ^ 32)"
proof -
  let ?d = "(ucast (at_StopRTM clk) :: 32 word) - ucast (at_StartRTM clk)"
  have u: "unat ?d = (unat (at_StopRTM clk) - unat (at_StartRTM clk)) mod 2 ^ 32"
    if "at_StartRTM clk \<le> at_StopRTM clk"
  proof -
    have "?d = ucast (at_StopRTM clk - at_StartRTM clk)"
      by (simp add: ucast_diff_down)
    then have "unat ?d = unat (at_StopRTM clk - at_StartRTM clk) mod 2 ^ 32"
      by (simp add: unat_ucast_down)
    with that show ?thesis by (simp add: unat_sub)
  qed
  from Handle_fire [OF assms, of cnt] u assms(2) show ?thesis
    by (simp add: StopRTM_StartRTM entry_after)
qed

theorem duration_mod_2_32_witness:
  "ucast (1000 :: 16 word)
     \<le> at_Handle \<lparr>at_Handle = 1000, at_StartRTM = 1001, at_StopRTM = 4294968302\<rparr>
         - main_g_LastMicros_u64 (static_init 10) \<and>
   unat (main_g_CurrTaskIndex_u16 (static_init 10)) < length (main_g_RuntimeMeas_s (static_init 10)) \<and>
   at_StartRTM \<lparr>at_Handle = 1000, at_StartRTM = 1001, at_StopRTM = 4294968302\<rparr>
     \<le> at_StopRTM \<lparr>at_Handle = 1000, at_StartRTM = 1001, at_StopRTM = 4294968302\<rparr> \<and>
   (\<exists>out g'. main_f_Handle_v 10 1000 \<lparr>at_Handle = 1000, at_StartRTM = 1001, at_StopRTM = 4294968302\<rparr>
                (static_init 10) = Inr (out, g') \<and>
      unat (currentCycle_u32 (main_g_RuntimeMeas_s g' ! 0)) = 5)"
proof -
  let ?clk = "\<lparr>at_Handle = 1000 :: 64 word, at_StartRTM = 1001 :: 64 word,
               at_StopRTM = 4294968302 :: 64 word\<rparr>"
  have h1: "ucast (1000 :: 16 word) \<le> at_Handle ?clk - main_g_LastMicros_u64 (static_init 10)"
    by (simp add: static_init_def)
  have h2: "unat (main_g_CurrTaskIndex_u16 (static_init 10)) < length (main_g_RuntimeMeas_s (static_init 10))"
    by (simp add: static_init_def)
  have h3: "at_StartRTM ?clk \<le> at_StopRTM ?clk" by simp
  from duration_mod_2_32 [OF h1 h2, of 10]
  obtain out g' where r: "main_f_Handle_v 10 1000 ?clk (static_init 10) = Inr (out, g')"
    and u: "at_StartRTM ?clk \<le> at_StopRTM ?clk \<longrightarrow>
              unat (currentCycle_u32 (main_g_RuntimeMeas_s g' ! unat (main_g_CurrTaskIndex_u16 (static_init 10)))) =
                (unat (at_StopRTM ?clk) - unat (at_StartRTM ?clk)) mod 2 ^ 32"
    by blast
  from u h3 have "unat (currentCycle_u32 (main_g_RuntimeMeas_s g' ! 0)) = 5"
    by (simp add: static_init_fields)
  with r h1 h2 h3 show ?thesis by blast
qed

end
